theory Spec2Isabelle
  imports Complex_Main
begin

section \<open>Data model of components.js\<close>

text \<open>
  Positions, scales, the camera pose and times are numbers the program computes from the
  scene markup, from three.js getters and from the browser clock; they are modelled as
  exact reals, so statements about them are about the arithmetic the handlers write
  down, not about IEEE-754 rounding. A THREE.Vector3 is three such numbers (\<open>x\<close>, \<open>y\<close>,
  \<open>z\<close>, here \<open>vx\<close>, \<open>vy\<close>, \<open>vz\<close>).
\<close>

record vec3 =
  vx :: real
  vy :: real
  vz :: real

text \<open>
  The pointer coordinate the drag handlers read can be missing: the property read is then
  \<open>undefined\<close>, and arithmetic on it gives NaN. So the values that depend on pointer
  events (the start of the drag and the Euler angles of the ring) are a real or NaN.
  NaN is absorbing for \<open>+\<close>, \<open>-\<close> and \<open>*\<close>; an \<open>undefined\<close> that is only ever used as an
  operand is modelled as NaN as well.
\<close>

datatype number = Num real | NaN

fun nadd :: "number \<Rightarrow> number \<Rightarrow> number" where
  "nadd (Num a) (Num b) = Num (a + b)"
| "nadd _ _ = NaN"

fun nsub :: "number \<Rightarrow> number \<Rightarrow> number" where
  "nsub (Num a) (Num b) = Num (a - b)"
| "nsub _ _ = NaN"

fun nmul :: "number \<Rightarrow> number \<Rightarrow> number" where
  "nmul (Num a) (Num b) = Num (a * b)"
| "nmul _ _ = NaN"

text \<open>A THREE.Euler; its axis order is never read by the code.\<close>

record euler =
  ex :: number
  ey :: number
  ez :: number

text \<open>The three.js operations the handlers call, with the formulas of the library.\<close>

definition add_v :: "vec3 \<Rightarrow> vec3 \<Rightarrow> vec3" where
  "add_v a b = \<lparr>vx = vx a + vx b, vy = vy a + vy b, vz = vz a + vz b\<rparr>"

definition multiplyScalar :: "vec3 \<Rightarrow> real \<Rightarrow> vec3" where
  "multiplyScalar a k = \<lparr>vx = vx a * k, vy = vy a * k, vz = vz a * k\<rparr>"

definition lerpVectors :: "vec3 \<Rightarrow> vec3 \<Rightarrow> real \<Rightarrow> vec3" where
  "lerpVectors v1 v2 alpha =
     \<lparr>vx = vx v1 + (vx v2 - vx v1) * alpha,
      vy = vy v1 + (vy v2 - vy v1) * alpha,
      vz = vz v1 + (vz v2 - vz v1) * alpha\<rparr>"

text \<open>
  Over the reals \<open>lerpVectors a b 1 = b\<close>. In double arithmetic \<open>v1 + (v2 - v1) * 1\<close> need
  not be \<open>v2\<close> (it is when \<open>v1\<close> and \<open>v2\<close> are within a factor two of each other, as a
  scale and 1.45 times that scale are): nothing below concludes from this model that a
  position lands exactly on its target or on its baseline for arbitrary values.
\<close>

text \<open>THREE.MathUtils.lerp, applied by the close animation to the Euler angles.\<close>

definition lerp :: "number \<Rightarrow> number \<Rightarrow> real \<Rightarrow> number" where
  "lerp a b t = nadd (nmul (Num (1 - t)) a) (nmul (Num t) b)"

text \<open>
  One ring entity: its object3D transform, the fields of its ring-focus component and
  the fields of its drag-rotate component. \<open>attached\<close> is the JavaScript field
  \<open>_attached\<close>, which starts undefined (falsy).
\<close>

record ring =
  originalPos :: vec3
  originalScale :: vec3
  originalRot :: euler
  position :: vec3
  scale :: vec3
  rotation :: euler
  isFocused :: bool
  isAnimating :: bool
  sensitivity :: real
  dragging :: bool
  startX :: number
  startYaw :: number
  attached :: bool

text \<open>
  What the scene markup gives a ring entity: its transform at load, and the sensitivity
  of its drag-rotate component (0.012 when the markup gives none).
\<close>

record entity =
  e_position :: vec3
  e_scale :: vec3
  e_rotation :: euler
  e_sensitivity :: real

text \<open>The values captured by the closure \<open>animate\<close> of onClick.\<close>

record focus_anim =
  f_startPos :: vec3
  f_target :: vec3
  f_startScale :: vec3
  f_targetScale :: vec3
  f_t0 :: real

text \<open>The values captured by the closure \<open>animateBack\<close> of onClose.\<close>

record close_anim =
  c_startPos :: vec3
  c_endPos :: vec3
  c_startScale :: vec3
  c_endScale :: vec3
  c_startRot :: euler
  c_endRot :: euler
  c_t0 :: real

text \<open>A callback handed to requestAnimationFrame, with the ring it belongs to.\<close>

datatype callback = Animate nat focus_anim | AnimateBack nat close_anim

datatype notification = ShowCloseButton | HideCloseButton

text \<open>
  The scene: the ring-manager system (\<open>busy\<close>, \<open>focusedEl\<close>), the ring entities in
  the order their components were initialised, the callbacks waiting for the next
  animation frame, and the window events dispatched so far.
\<close>

record scene =
  busy :: bool
  focusedEl :: "nat option"
  rings :: "ring list"
  rafQueue :: "callback list"
  dispatched :: "notification list"

text \<open>
  The entity with the camera component, as far as onClick reads it: the world position of
  its object3D and the world direction of the positive z axis of that object3D. The
  object3D of an A-Frame entity is a THREE.Group with the THREE camera as a child, and
  a three.js camera looks along its negative z axis.
\<close>

record camera_entity =
  worldPosition :: vec3
  zAxis :: vec3

text \<open>Object3D.getWorldPosition and Object3D.getWorldDirection of three.js.\<close>

definition getWorldPosition :: "camera_entity \<Rightarrow> vec3" where
  "getWorldPosition c = worldPosition c"

definition getWorldDirection :: "camera_entity \<Rightarrow> vec3" where
  "getWorldDirection c = zAxis c"

text \<open>The direction the camera looks in, its forward direction.\<close>

definition forward :: "camera_entity \<Rightarrow> vec3" where
  "forward c = \<lparr>vx = - vx (zAxis c), vy = - vy (zAxis c), vz = - vz (zAxis c)\<rparr>"

text \<open>
  The event object a drag handler receives. A MouseEvent has \<open>clientX\<close> and no \<open>touches\<close>;
  a TouchEvent has \<open>touches\<close> (each with its \<open>clientX\<close>) and no \<open>clientX\<close> of its own; the
  mousedown that the A-Frame cursor emits on an entity is a CustomEvent with neither.
\<close>

record pointer_event =
  touches :: "real list"
  clientX :: "real option"

section \<open>ring-manager system\<close>

definition setBusy :: "bool \<Rightarrow> scene \<Rightarrow> scene" where
  "setBusy v s = s\<lparr>busy := v\<rparr>"

definition isBusy :: "scene \<Rightarrow> bool" where
  "isBusy s = busy s"

definition setFocused :: "nat \<Rightarrow> scene \<Rightarrow> scene" where
  "setFocused el s = s\<lparr>focusedEl := Some el\<rparr>"

definition getFocused :: "scene \<Rightarrow> nat option" where
  "getFocused s = focusedEl s"

definition clearFocused :: "scene \<Rightarrow> scene" where
  "clearFocused s = s\<lparr>focusedEl := None\<rparr>"

section \<open>Helpers of the embedding\<close>

definition upd_ring :: "nat \<Rightarrow> (ring \<Rightarrow> ring) \<Rightarrow> scene \<Rightarrow> scene" where
  "upd_ring i f s = s\<lparr>rings := (rings s)[i := f (rings s ! i)]\<rparr>"

definition requestAnimationFrame :: "callback \<Rightarrow> scene \<Rightarrow> scene" where
  "requestAnimationFrame cb s = s\<lparr>rafQueue := rafQueue s @ [cb]\<rparr>"

definition dispatchEvent :: "notification \<Rightarrow> scene \<Rightarrow> scene" where
  "dispatchEvent n s = s\<lparr>dispatched := dispatched s @ [n]\<rparr>"

definition duration :: real where
  "duration = 600"

section \<open>ring-focus component\<close>

text \<open>
  init of ring-focus and of drag-rotate for one entity: the baseline is cloned from the
  transform the entity has at that moment, \<open>startYaw\<close> is its yaw.
\<close>

definition ring_init :: "entity \<Rightarrow> ring" where
  "ring_init en =
     \<lparr>originalPos = e_position en, originalScale = e_scale en, originalRot = e_rotation en,
      position = e_position en, scale = e_scale en, rotation = e_rotation en,
      isFocused = False, isAnimating = False,
      sensitivity = e_sensitivity en, dragging = False, startX = Num 0,
      startYaw = ey (e_rotation en), attached = False\<rparr>"

text \<open>init of the ring-manager system, and of the components of every ring entity.\<close>

definition scene_init :: "entity list \<Rightarrow> scene" where
  "scene_init ens =
     \<lparr>busy = False, focusedEl = None, rings = map ring_init ens, rafQueue = [],
      dispatched = []\<rparr>"

definition easeOutCubic :: "real \<Rightarrow> real" where
  "easeOutCubic t = 1 - (1 - t) ^ 3"

definition easeInOutCubic :: "real \<Rightarrow> real" where
  "easeInOutCubic t = (if t < 0.5 then 4 * t * t * t else 1 - (- 2 * t + 2) ^ 3 / 2)"

text \<open>
  onClick of ring \<open>i\<close>; \<open>now\<close> is what performance.now() returns and \<open>cam\<close> the entity
  found by querySelector('[camera]'). With no such entity the handler throws at the first
  use of cameraEl, after the three assignments of the busy lock: that state is what it
  leaves behind. A handler exists only for an existing entity, so an index outside the
  list does nothing.
\<close>

definition onClick :: "real \<Rightarrow> camera_entity option \<Rightarrow> nat \<Rightarrow> scene \<Rightarrow> scene" where
  "onClick now cam i s =
     (if \<not> i < length (rings s) then s
      else if isBusy s then s
      else if isFocused (rings s ! i) \<or> isAnimating (rings s ! i) then s
      else
        let s1 = setFocused i (upd_ring i (\<lambda>r. r\<lparr>isAnimating := True\<rparr>) (setBusy True s))
        in case cam of
             None \<Rightarrow> s1
           | Some c \<Rightarrow>
               let camPos = getWorldPosition c;
                   camDir = getWorldDirection c;
                   target0 = add_v camPos (multiplyScalar camDir 1.6);
                   target = target0\<lparr>vy := max (vy target0) (vy (originalPos (rings s1 ! i)) + 1.2)\<rparr>;
                   startPos = position (rings s1 ! i);
                   startScale = scale (rings s1 ! i);
                   targetScale = multiplyScalar startScale 1.45
               in requestAnimationFrame
                    (Animate i \<lparr>f_startPos = startPos, f_target = target,
                                f_startScale = startScale, f_targetScale = targetScale,
                                f_t0 = now\<rparr>) s1)"

text \<open>The closure \<open>animate\<close>, called by the browser with the frame's time.\<close>

definition animate :: "real \<Rightarrow> nat \<Rightarrow> focus_anim \<Rightarrow> scene \<Rightarrow> scene" where
  "animate time i a s =
     (let t = min 1 ((time - f_t0 a) / duration);
          e = easeOutCubic t;
          s1 = upd_ring i (\<lambda>r. r\<lparr>position := lerpVectors (f_startPos a) (f_target a) e,
                                  scale := lerpVectors (f_startScale a) (f_targetScale a) e\<rparr>) s
      in if t < 1 then requestAnimationFrame (Animate i a) s1
         else dispatchEvent ShowCloseButton
                (setBusy False
                  (upd_ring i (\<lambda>r. r\<lparr>isAnimating := False, isFocused := True\<rparr>) s1)))"

text \<open>onClose of ring \<open>i\<close>, the listener of the window event close-focused-ring.\<close>

definition onClose :: "real \<Rightarrow> nat \<Rightarrow> scene \<Rightarrow> scene" where
  "onClose now i s =
     (if \<not> i < length (rings s) then s
      else if \<not> isFocused (rings s ! i) then s
      else if isBusy s then s
      else
        let s1 = upd_ring i (\<lambda>r. r\<lparr>isAnimating := True\<rparr>) (setBusy True s);
            r = rings s1 ! i
        in requestAnimationFrame
             (AnimateBack i \<lparr>c_startPos = position r, c_endPos = originalPos r,
                              c_startScale = scale r, c_endScale = originalScale r,
                              c_startRot = rotation r, c_endRot = originalRot r,
                              c_t0 = now\<rparr>) s1)"

text \<open>The closure \<open>animateBack\<close>.\<close>

definition animateBack :: "real \<Rightarrow> nat \<Rightarrow> close_anim \<Rightarrow> scene \<Rightarrow> scene" where
  "animateBack time i c s =
     (let t = min 1 ((time - c_t0 c) / duration);
          e = easeInOutCubic t;
          s1 = upd_ring i (\<lambda>r. r\<lparr>position := lerpVectors (c_startPos c) (c_endPos c) e,
                                  scale := lerpVectors (c_startScale c) (c_endScale c) e,
                                  rotation := \<lparr>ex = lerp (ex (c_startRot c)) (ex (c_endRot c)) e,
                                               ey = lerp (ey (c_startRot c)) (ey (c_endRot c)) e,
                                               ez = lerp (ez (c_startRot c)) (ez (c_endRot c)) e\<rparr>\<rparr>) s
      in if t < 1 then requestAnimationFrame (AnimateBack i c) s1
         else dispatchEvent HideCloseButton
                (clearFocused
                  (setBusy False
                    (upd_ring i (\<lambda>r. r\<lparr>isAnimating := False, isFocused := False\<rparr>) s1))))"

section \<open>drag-rotate component\<close>

text \<open>
  \<open>(evt.touches && evt.touches[0]) ? evt.touches[0].clientX : evt.clientX\<close>, as an
  operand of the subtraction in onPointerMove: a missing \<open>clientX\<close> is NaN there.
\<close>

definition pointerX :: "pointer_event \<Rightarrow> number" where
  "pointerX evt =
     (case touches evt of
        t # _ \<Rightarrow> Num t
      | [] \<Rightarrow> (case clientX evt of Some x \<Rightarrow> Num x | None \<Rightarrow> NaN))"

definition onPointerDown :: "pointer_event \<Rightarrow> nat \<Rightarrow> scene \<Rightarrow> scene" where
  "onPointerDown evt i s =
     (if \<not> i < length (rings s) then s
      else if isBusy s then s
      else upd_ring i (\<lambda>r. r\<lparr>dragging := True, startX := pointerX evt,
                               startYaw := ey (rotation r)\<rparr>) s)"

definition onPointerMove :: "pointer_event \<Rightarrow> nat \<Rightarrow> scene \<Rightarrow> scene" where
  "onPointerMove evt i s =
     (if \<not> i < length (rings s) then s
      else if \<not> dragging (rings s ! i) then s
      else upd_ring i (\<lambda>r. r\<lparr>rotation := (rotation r)
                 \<lparr>ey := nadd (startYaw r)
                          (nmul (nsub (pointerX evt) (startX r)) (Num (sensitivity r)))\<rparr>\<rparr>) s)"

definition onPointerUp :: "nat \<Rightarrow> scene \<Rightarrow> scene" where
  "onPointerUp i s = upd_ring i (\<lambda>r. r\<lparr>dragging := False\<rparr>) s"

definition tick :: "nat \<Rightarrow> scene \<Rightarrow> scene" where
  "tick i s =
     (if \<not> i < length (rings s) then s
      else if dragging (rings s ! i) \<and> \<not> attached (rings s ! i)
        then upd_ring i (\<lambda>r. r\<lparr>attached := True\<rparr>) s
      else if \<not> dragging (rings s ! i) \<and> attached (rings s ! i)
        then upd_ring i (\<lambda>r. r\<lparr>attached := False\<rparr>) s
      else s)"

section \<open>The browser: dispatching events to the handlers\<close>

text \<open>
  An animation frame runs the callbacks that were waiting, in order; what they request
  waits for the next frame.
\<close>

fun run_callback :: "real \<Rightarrow> callback \<Rightarrow> scene \<Rightarrow> scene" where
  "run_callback time (Animate i a) s = animate time i a s"
| "run_callback time (AnimateBack i c) s = animateBack time i c s"

definition animationFrame :: "real \<Rightarrow> scene \<Rightarrow> scene" where
  "animationFrame time s = fold (run_callback time) (rafQueue s) (s\<lparr>rafQueue := []\<rparr>)"

text \<open>
  The window event close-focused-ring reaches the onClose of every ring, in the order
  of registration; \<open>clock k\<close> is what performance.now() would return in the handler of
  ring \<open>k\<close>.
\<close>

definition closeFocusedRing :: "(nat \<Rightarrow> real) \<Rightarrow> scene \<Rightarrow> scene" where
  "closeFocusedRing clock s = fold (\<lambda>k. onClose (clock k) k) [0..<length (rings s)] s"

text \<open>mousemove and touchmove on the window reach the rings whose listeners are attached.\<close>

definition windowPointerMove :: "pointer_event \<Rightarrow> scene \<Rightarrow> scene" where
  "windowPointerMove evt s =
     fold (\<lambda>k s'. if attached (rings s' ! k) then onPointerMove evt k s' else s')
          [0..<length (rings s)] s"

definition windowPointerUp :: "scene \<Rightarrow> scene" where
  "windowPointerUp s = fold onPointerUp [0..<length (rings s)] s"

definition tickAll :: "scene \<Rightarrow> scene" where
  "tickAll s = fold tick [0..<length (rings s)] s"

datatype event =
    Click nat real "camera_entity option"
  | CloseRequested "nat \<Rightarrow> real"
  | AnimationFrame real
  | PointerDown nat pointer_event
  | PointerMove pointer_event
  | PointerUp
  | Tick

fun step :: "event \<Rightarrow> scene \<Rightarrow> scene" where
  "step (Click i now cam) s = onClick now cam i s"
| "step (CloseRequested clock) s = closeFocusedRing clock s"
| "step (AnimationFrame time) s = animationFrame time s"
| "step (PointerDown i evt) s = onPointerDown evt i s"
| "step (PointerMove evt) s = windowPointerMove evt s"
| "step (PointerUp) s = windowPointerUp s"
| "step Tick s = tickAll s"

definition run :: "event list \<Rightarrow> scene \<Rightarrow> scene" where
  "run evs s = fold step evs s"

text \<open>The states the scene can be in: those some sequence of events leads to.\<close>

inductive reachable :: "entity list \<Rightarrow> scene \<Rightarrow> bool" for ens :: "entity list" where
  reachable_init: "reachable ens (scene_init ens)"
| reachable_step: "reachable ens s \<Longrightarrow> reachable ens (step ev s)"

section \<open>The invariant of the reachable scenes\<close>

text \<open>
  The part of a ring the animations and the click guard depend on; the drag handlers
  and tick leave it alone.
\<close>

definition core :: "ring \<Rightarrow> vec3 \<times> vec3 \<times> euler \<times> vec3 \<times> bool \<times> bool" where
  "core r = (originalPos r, originalScale r, originalRot r, scale r, isFocused r, isAnimating r)"

definition same_core :: "scene \<Rightarrow> scene \<Rightarrow> bool" where
  "same_core s s' \<longleftrightarrow>
     busy s' = busy s \<and> rafQueue s' = rafQueue s \<and> map core (rings s') = map core (rings s)"

text \<open>
  A waiting callback belongs to a ring that is animating; a focus closure starts from
  the baseline scale, a close closure ends at the baseline transform.
\<close>

definition callback_ok :: "scene \<Rightarrow> callback \<Rightarrow> bool" where
  "callback_ok s cb =
     (case cb of
        Animate i a \<Rightarrow>
          i < length (rings s) \<and> isAnimating (rings s ! i) \<and>
          f_startScale a = originalScale (rings s ! i) \<and>
          f_targetScale a = multiplyScalar (originalScale (rings s ! i)) 1.45
      | AnimateBack i c \<Rightarrow>
          i < length (rings s) \<and> isAnimating (rings s ! i) \<and>
          c_endPos c = originalPos (rings s ! i) \<and>
          c_endScale c = originalScale (rings s ! i) \<and>
          c_endRot c = originalRot (rings s ! i))"

text \<open>
  The baselines are those of init; at most one callback waits, and only while the
  session is busy; a ring that is neither focused nor animating has its baseline scale.
\<close>

definition scene_inv :: "entity list \<Rightarrow> scene \<Rightarrow> bool" where
  "scene_inv ens s \<longleftrightarrow>
     map originalPos (rings s) = map e_position ens \<and>
     map originalScale (rings s) = map e_scale ens \<and>
     map originalRot (rings s) = map e_rotation ens \<and>
     (rafQueue s = [] \<or> (busy s \<and> (\<exists>cb. rafQueue s = [cb] \<and> callback_ok s cb))) \<and>
     (\<forall>i<length (rings s).
        \<not> isFocused (rings s ! i) \<and> \<not> isAnimating (rings s ! i) \<longrightarrow>
        scale (rings s ! i) = originalScale (rings s ! i))"

section \<open>The drag handlers seen from one ring\<close>

text \<open>
  What tick does to the ring it belongs to, and what a move on the window does to a ring:
  the handler runs only when the listeners of that ring are attached.
\<close>

definition tick_ring :: "ring \<Rightarrow> ring" where
  "tick_ring r =
     (if dragging r \<and> \<not> attached r then r\<lparr>attached := True\<rparr>
      else if \<not> dragging r \<and> attached r then r\<lparr>attached := False\<rparr>
      else r)"

definition move_ring :: "pointer_event \<Rightarrow> ring \<Rightarrow> ring" where
  "move_ring evt r =
     (if attached r \<and> dragging r
      then r\<lparr>rotation := (rotation r)
               \<lparr>ey := nadd (startYaw r)
                        (nmul (nsub (pointerX evt) (startX r)) (Num (sensitivity r)))\<rparr>\<rparr>
      else r)"

section \<open>Concrete scenes for the examples\<close>

text \<open>A ring at the origin with scale 1, and one with a baseline that is not trivial.\<close>

definition demo_entity :: entity where
  "demo_entity =
     \<lparr>e_position = \<lparr>vx = 0, vy = 0, vz = 0\<rparr>, e_scale = \<lparr>vx = 1, vy = 1, vz = 1\<rparr>,
      e_rotation = \<lparr>ex = Num 0, ey = Num 0, ez = Num 0\<rparr>, e_sensitivity = 0.012\<rparr>"

definition tilted_entity :: entity where
  "tilted_entity =
     \<lparr>e_position = \<lparr>vx = 0.5, vy = 0.1, vz = - 0.2\<rparr>, e_scale = \<lparr>vx = 2, vy = 2, vz = 2\<rparr>,
      e_rotation = \<lparr>ex = Num 0, ey = Num 0.3, ez = Num 0\<rparr>, e_sensitivity = 0.012\<rparr>"

text \<open>
  A camera entity that is not rotated, at z = 3 and low enough for the floor of the
  target height to apply: its z axis is the world z axis, and it looks towards the
  rings, along decreasing z.
\<close>

definition demo_camera :: camera_entity where
  "demo_camera =
     \<lparr>worldPosition = \<lparr>vx = 0, vy = 1, vz = 3\<rparr>, zAxis = \<lparr>vx = 0, vy = 0, vz = 1\<rparr>\<rparr>"

text \<open>A mouse event, a touch event, and the mousedown the cursor emits on an entity.\<close>

definition mouse :: "real \<Rightarrow> pointer_event" where
  "mouse x = \<lparr>touches = [], clientX = Some x\<rparr>"

definition touch :: "real \<Rightarrow> pointer_event" where
  "touch x = \<lparr>touches = [x], clientX = None\<rparr>"

definition entity_mousedown :: pointer_event where
  "entity_mousedown = \<lparr>touches = [], clientX = None\<rparr>"

text \<open>Ring 0 is focused, then ring 1 is clicked and its focus animation completes.\<close>

definition two_focused :: scene where
  "two_focused =
     run [Click 0 0 (Some demo_camera), AnimationFrame 600,
          Click 1 700 (Some demo_camera), AnimationFrame 1300]
       (scene_init [demo_entity, demo_entity])"

text \<open>
  A ring is focused, dragged while focused with the events the browser and the cursor
  deliver, asked to close at time 1000, and the close animation runs to its end.
\<close>

definition dragged_cycle :: "event list" where
  "dragged_cycle =
     [Click 0 0 (Some demo_camera), AnimationFrame 300, AnimationFrame 600,
      PointerDown 0 entity_mousedown, Tick, PointerMove (mouse 150), PointerUp, Tick,
      CloseRequested (\<lambda>_. 1000), AnimationFrame 1200, AnimationFrame 1600]"

text \<open>Ring 0 is focused; then ring 1 is clicked.\<close>

definition second_click :: "event list" where
  "second_click =
     [Click 0 0 (Some demo_camera), AnimationFrame 600, Click 1 700 (Some demo_camera)]"

text \<open>Ring 0 of two is focused and the session is idle.\<close>

definition one_focused :: scene where
  "one_focused =
     run [Click 0 0 (Some demo_camera), AnimationFrame 600]
       (scene_init [demo_entity, tilted_entity])"

section \<open>Basic facts\<close>

lemmas mgr_defs = setBusy_def isBusy_def setFocused_def clearFocused_def
  requestAnimationFrame_def dispatchEvent_def

lemmas eval_defs = run_def scene_init_def ring_init_def onClick_def onClose_def animate_def
  animateBack_def animationFrame_def closeFocusedRing_def windowPointerMove_def
  windowPointerUp_def tickAll_def tick_def onPointerDown_def onPointerMove_def
  onPointerUp_def pointerX_def mgr_defs upd_ring_def easeOutCubic_def easeInOutCubic_def
  lerpVectors_def lerp_def add_v_def multiplyScalar_def duration_def demo_entity_def
  tilted_entity_def demo_camera_def mouse_def touch_def entity_mousedown_def
  two_focused_def dragged_cycle_def second_click_def one_focused_def
  getWorldPosition_def getWorldDirection_def forward_def
  Let_def

lemma map_update_same: "f v = f (xs ! i) \<Longrightarrow> map f (xs[i := v]) = map f xs"
  by (cases "i < length xs")
     (simp_all add: map_update list_update_same_conv list_update_beyond not_less)

lemma rings_upd_ring [simp]: "rings (upd_ring i f s) = (rings s)[i := f (rings s ! i)]"
  by (simp add: upd_ring_def)

lemma upd_ring_other [simp]:
  "busy (upd_ring i f s) = busy s"
  "focusedEl (upd_ring i f s) = focusedEl s"
  "rafQueue (upd_ring i f s) = rafQueue s"
  "dispatched (upd_ring i f s) = dispatched s"
  by (simp_all add: upd_ring_def)

lemma upd_ring_upd_ring: "upd_ring i g (upd_ring i f s) = upd_ring i (\<lambda>r. g (f r)) s"
  by (cases "i < length (rings s)") (simp_all add: upd_ring_def list_update_beyond not_less)

lemma vec3_eta [simp]: "\<lparr>vx = vx v, vy = vy v, vz = vz v\<rparr> = (v::vec3)"
  by (cases v) simp

subsection \<open>The easing curves and the interpolations at the end of an animation\<close>

lemma easeOutCubic_1 [simp]: "easeOutCubic 1 = 1"
  by (simp add: easeOutCubic_def)

lemma easeInOutCubic_1 [simp]: "easeInOutCubic 1 = 1"
  by (simp add: easeInOutCubic_def)

lemma lerpVectors_1 [simp]: "lerpVectors a b 1 = b"
  by (simp add: lerpVectors_def)

text \<open>
  At the end of the close animation \<open>lerp\<close> gives the end angle when the start angle is a
  real, and NaN when the start angle is NaN.
\<close>

lemma lerp_1: "lerp a b 1 = (case a of Num _ \<Rightarrow> b | NaN \<Rightarrow> NaN)"
  by (cases a; cases b) (simp_all add: lerp_def)

lemma progress_lt: "min 1 ((time - t0) / duration) < 1 \<longleftrightarrow> time < t0 + 600"
  by (auto simp: duration_def min_def)

lemma progress_done: "t0 + 600 \<le> time \<Longrightarrow> min 1 ((time - t0) / duration) = 1"
  by (auto simp: duration_def min_def)

subsection \<open>What each handler does when its guards pass\<close>

lemma onClick_accepted:
  assumes "i < length (rings s)" "\<not> busy s"
    "\<not> isFocused (rings s ! i)" "\<not> isAnimating (rings s ! i)"
  shows "onClick now None i s =
           s\<lparr>busy := True, rings := (rings s)[i := (rings s ! i)\<lparr>isAnimating := True\<rparr>],
              focusedEl := Some i\<rparr>"
    and "onClick now (Some c) i s =
           s\<lparr>busy := True, rings := (rings s)[i := (rings s ! i)\<lparr>isAnimating := True\<rparr>],
              focusedEl := Some i,
              rafQueue := rafQueue s @
                [Animate i \<lparr>f_startPos = position (rings s ! i),
                   f_target = \<lparr>vx = vx (worldPosition c) + vx (zAxis c) * 1.6,
                                vy = max (vy (worldPosition c) + vy (zAxis c) * 1.6)
                                         (vy (originalPos (rings s ! i)) + 1.2),
                                vz = vz (worldPosition c) + vz (zAxis c) * 1.6\<rparr>,
                   f_startScale = scale (rings s ! i),
                   f_targetScale = multiplyScalar (scale (rings s ! i)) 1.45,
                   f_t0 = now\<rparr>]\<rparr>"
  using assms
  by (simp_all add: onClick_def mgr_defs upd_ring_def Let_def add_v_def multiplyScalar_def
      getWorldPosition_def getWorldDirection_def)

lemma onClose_accepted:
  assumes "i < length (rings s)" "isFocused (rings s ! i)" "\<not> busy s"
  shows "onClose now i s =
           s\<lparr>busy := True, rings := (rings s)[i := (rings s ! i)\<lparr>isAnimating := True\<rparr>],
              rafQueue := rafQueue s @
                [AnimateBack i \<lparr>c_startPos = position (rings s ! i),
                   c_endPos = originalPos (rings s ! i),
                   c_startScale = scale (rings s ! i), c_endScale = originalScale (rings s ! i),
                   c_startRot = rotation (rings s ! i), c_endRot = originalRot (rings s ! i),
                   c_t0 = now\<rparr>]\<rparr>"
  using assms by (simp add: onClose_def mgr_defs upd_ring_def Let_def)

lemma onClose_busy: "busy s \<Longrightarrow> onClose now i s = s"
  by (simp add: onClose_def isBusy_def)

lemma onClose_not_focused:
  "\<not> (i < length (rings s) \<and> isFocused (rings s ! i)) \<Longrightarrow> onClose now i s = s"
  by (auto simp: onClose_def)

lemma animate_running:
  assumes "time < f_t0 a + 600"
  shows "animate time i a s =
     s\<lparr>rings := (rings s)[i := (rings s ! i)
           \<lparr>position := lerpVectors (f_startPos a) (f_target a)
                          (easeOutCubic (min 1 ((time - f_t0 a) / duration))),
            scale := lerpVectors (f_startScale a) (f_targetScale a)
                          (easeOutCubic (min 1 ((time - f_t0 a) / duration)))\<rparr>],
       rafQueue := rafQueue s @ [Animate i a]\<rparr>"
  using assms by (simp add: animate_def Let_def progress_lt mgr_defs upd_ring_def)

lemma animate_done:
  assumes "f_t0 a + 600 \<le> time"
  shows "animate time i a s =
     s\<lparr>rings := (rings s)[i := (rings s ! i)
           \<lparr>position := f_target a, scale := f_targetScale a,
            isAnimating := False, isFocused := True\<rparr>],
       busy := False, dispatched := dispatched s @ [ShowCloseButton]\<rparr>"
proof (cases "i < length (rings s)")
  case True
  with assms show ?thesis
    by (simp add: animate_def Let_def progress_done mgr_defs upd_ring_def)
next
  case False
  with assms show ?thesis
    by (simp add: animate_def Let_def progress_done mgr_defs upd_ring_def
        list_update_beyond not_less)
qed

lemma animateBack_running:
  assumes "time < c_t0 c + 600"
  shows "animateBack time i c s =
     s\<lparr>rings := (rings s)[i := (rings s ! i)
           \<lparr>position := lerpVectors (c_startPos c) (c_endPos c)
                          (easeInOutCubic (min 1 ((time - c_t0 c) / duration))),
            scale := lerpVectors (c_startScale c) (c_endScale c)
                          (easeInOutCubic (min 1 ((time - c_t0 c) / duration))),
            rotation := \<lparr>ex = lerp (ex (c_startRot c)) (ex (c_endRot c))
                                  (easeInOutCubic (min 1 ((time - c_t0 c) / duration))),
                         ey = lerp (ey (c_startRot c)) (ey (c_endRot c))
                                  (easeInOutCubic (min 1 ((time - c_t0 c) / duration))),
                         ez = lerp (ez (c_startRot c)) (ez (c_endRot c))
                                  (easeInOutCubic (min 1 ((time - c_t0 c) / duration)))\<rparr>\<rparr>],
       rafQueue := rafQueue s @ [AnimateBack i c]\<rparr>"
  using assms by (simp add: animateBack_def Let_def progress_lt mgr_defs upd_ring_def)

lemma animateBack_done:
  assumes "c_t0 c + 600 \<le> time"
  shows "animateBack time i c s =
     s\<lparr>rings := (rings s)[i := (rings s ! i)
           \<lparr>position := c_endPos c, scale := c_endScale c,
            rotation := \<lparr>ex = lerp (ex (c_startRot c)) (ex (c_endRot c)) 1,
                         ey = lerp (ey (c_startRot c)) (ey (c_endRot c)) 1,
                         ez = lerp (ez (c_startRot c)) (ez (c_endRot c)) 1\<rparr>,
            isAnimating := False, isFocused := False\<rparr>],
       busy := False, focusedEl := None, dispatched := dispatched s @ [HideCloseButton]\<rparr>"
proof (cases "i < length (rings s)")
  case True
  with assms show ?thesis
    by (simp add: animateBack_def Let_def progress_done mgr_defs upd_ring_def)
next
  case False
  with assms show ?thesis
    by (simp add: animateBack_def Let_def progress_done mgr_defs upd_ring_def
        list_update_beyond not_less)
qed

lemma animationFrame_single:
  "rafQueue s = [cb] \<Longrightarrow> animationFrame time s = run_callback time cb (s\<lparr>rafQueue := []\<rparr>)"
  by (simp add: animationFrame_def)

lemma animationFrame_empty: "rafQueue s = [] \<Longrightarrow> animationFrame time s = s"
  by (simp add: animationFrame_def)

subsection \<open>Handlers that leave the core of every ring alone\<close>

lemma same_core_refl: "same_core s s"
  by (simp add: same_core_def)

lemma same_core_trans: "same_core s s' \<Longrightarrow> same_core s' s'' \<Longrightarrow> same_core s s''"
  by (simp add: same_core_def)

lemma same_core_fold:
  assumes "\<And>k s. same_core s (h k s)"
  shows "same_core s (fold h ks s)"
proof (induction ks arbitrary: s)
  case Nil
  show ?case by (simp add: same_core_refl)
next
  case (Cons k ks)
  have "same_core s (h k s)" by (rule assms)
  moreover have "same_core (h k s) (fold h ks (h k s))" by (rule Cons.IH)
  ultimately show ?case by (simp add: same_core_trans [of s "h k s"])
qed

lemma same_core_nth:
  assumes "same_core s s'"
  shows "length (rings s') = length (rings s)"
    and "i < length (rings s) \<Longrightarrow> core (rings s' ! i) = core (rings s ! i)"
proof -
  from assms have m: "map core (rings s') = map core (rings s)" by (simp add: same_core_def)
  then show len: "length (rings s') = length (rings s)" by (rule map_eq_imp_length_eq)
  assume i: "i < length (rings s)"
  from m have "map core (rings s') ! i = map core (rings s) ! i" by simp
  with i len show "core (rings s' ! i) = core (rings s ! i)" by simp
qed

lemma map_via_core:
  assumes "map core xs = map core ys" and "\<And>r. g r = h (core r)"
  shows "map g xs = map g ys"
proof -
  have "map g xs = map h (map core xs)" by (simp add: assms(2))
  also have "\<dots> = map h (map core ys)" by (simp only: assms(1))
  also have "\<dots> = map g ys" by (simp add: assms(2))
  finally show ?thesis .
qed

lemma map_core_fields:
  assumes "map core xs = map core ys"
  shows "map originalPos xs = map originalPos ys"
    and "map originalScale xs = map originalScale ys"
    and "map originalRot xs = map originalRot ys"
proof -
  show "map originalPos xs = map originalPos ys"
    by (rule map_via_core [OF assms, where h = fst]) (simp add: core_def)
  show "map originalScale xs = map originalScale ys"
    by (rule map_via_core [OF assms, where h = "\<lambda>p. fst (snd p)"]) (simp add: core_def)
  show "map originalRot xs = map originalRot ys"
    by (rule map_via_core [OF assms, where h = "\<lambda>p. fst (snd (snd p))"])
       (simp add: core_def)
qed

lemma same_core_upd_ring:
  assumes "core (f (rings s ! i)) = core (rings s ! i)"
  shows "same_core s (upd_ring i f s)"
  using assms by (simp add: same_core_def map_update_same)

lemma same_core_onPointerDown: "same_core s (onPointerDown evt i s)"
  by (simp add: onPointerDown_def same_core_refl same_core_upd_ring core_def)

lemma same_core_onPointerMove: "same_core s (onPointerMove evt i s)"
  by (simp add: onPointerMove_def same_core_refl same_core_upd_ring core_def)

lemma same_core_onPointerUp: "same_core s (onPointerUp i s)"
  by (simp add: onPointerUp_def same_core_upd_ring core_def)

lemma same_core_tick: "same_core s (tick i s)"
  by (simp add: tick_def same_core_refl same_core_upd_ring core_def)

lemma same_core_windowPointerMove: "same_core s (windowPointerMove evt s)"
  unfolding windowPointerMove_def
  by (rule same_core_fold) (simp add: same_core_refl same_core_onPointerMove)

lemma same_core_windowPointerUp: "same_core s (windowPointerUp s)"
  unfolding windowPointerUp_def by (rule same_core_fold) (rule same_core_onPointerUp)

lemma same_core_tickAll: "same_core s (tickAll s)"
  unfolding tickAll_def by (rule same_core_fold) (rule same_core_tick)

subsection \<open>Window events, ring by ring\<close>

lemma length_fold_upd_ring [simp]:
  "length (rings (fold (\<lambda>k. upd_ring k (g k)) ks s)) = length (rings s)"
  by (induction ks arbitrary: s) simp_all

lemma fold_upd_ring_nth:
  assumes "distinct ks" and "i < length (rings s)"
  shows "rings (fold (\<lambda>k. upd_ring k (g k)) ks s) ! i =
           (if i \<in> set ks then g i (rings s ! i) else rings s ! i)"
  using assms
proof (induction ks arbitrary: s)
  case Nil
  show ?case by simp
next
  case (Cons k ks)
  from Cons.prems have d: "distinct ks" and nk: "k \<notin> set ks" by simp_all
  from Cons.prems have i': "i < length (rings (upd_ring k (g k) s))" by simp
  from Cons.IH [OF d i'] Cons.prems nk show ?case
    by (cases "k = i") (auto simp: nth_list_update)
qed

lemma tick_upd: "tick = (\<lambda>k. upd_ring k tick_ring)"
  by (intro ext)
     (simp add: tick_def tick_ring_def upd_ring_def list_update_beyond not_less)

lemma move_upd:
  "(\<lambda>k s. if attached (rings s ! k) then onPointerMove evt k s else s) =
   (\<lambda>k. upd_ring k (move_ring evt))"
  by (intro ext)
     (simp add: onPointerMove_def move_ring_def upd_ring_def list_update_beyond not_less)

lemma up_upd: "onPointerUp = (\<lambda>k. upd_ring k (\<lambda>r. r\<lparr>dragging := False\<rparr>))"
  by (intro ext) (simp add: onPointerUp_def)

lemma length_tickAll [simp]: "length (rings (tickAll s)) = length (rings s)"
  by (simp add: tickAll_def tick_upd)

lemma length_windowPointerMove [simp]:
  "length (rings (windowPointerMove evt s)) = length (rings s)"
  by (simp add: windowPointerMove_def move_upd)

lemma tickAll_nth:
  "i < length (rings s) \<Longrightarrow> rings (tickAll s) ! i = tick_ring (rings s ! i)"
  by (simp add: tickAll_def tick_upd fold_upd_ring_nth)


lemma windowPointerUp_nth:
  "i < length (rings s) \<Longrightarrow>
   rings (windowPointerUp s) ! i = (rings s ! i)\<lparr>dragging := False\<rparr>"
  by (simp add: windowPointerUp_def up_upd fold_upd_ring_nth)

subsection \<open>Every step keeps the invariant\<close>

lemma callback_ok_same_core:
  assumes "same_core s s'" and "callback_ok s cb"
  shows "callback_ok s' cb"
proof (cases cb)
  case (Animate i a)
  with assms(2) have i: "i < length (rings s)" by (simp add: callback_ok_def)
  from same_core_nth [OF assms(1)] i have "length (rings s') = length (rings s)"
    and "core (rings s' ! i) = core (rings s ! i)" by simp_all
  with assms(2) Animate show ?thesis by (simp add: callback_ok_def core_def)
next
  case (AnimateBack i c)
  with assms(2) have i: "i < length (rings s)" by (simp add: callback_ok_def)
  from same_core_nth [OF assms(1)] i have "length (rings s') = length (rings s)"
    and "core (rings s' ! i) = core (rings s ! i)" by simp_all
  with assms(2) AnimateBack show ?thesis by (simp add: callback_ok_def core_def)
qed

lemma scene_inv_same_core:
  assumes sc: "same_core s s'" and inv: "scene_inv ens s"
  shows "scene_inv ens s'"
proof -
  from sc have m: "map core (rings s') = map core (rings s)"
    and b: "busy s' = busy s" and q: "rafQueue s' = rafQueue s"
    by (simp_all add: same_core_def)
  note f = map_core_fields [OF m]
  have idle: "\<forall>i<length (rings s').
      \<not> isFocused (rings s' ! i) \<and> \<not> isAnimating (rings s' ! i) \<longrightarrow>
      scale (rings s' ! i) = originalScale (rings s' ! i)"
  proof (intro allI impI)
    fix i assume i: "i < length (rings s')"
      and n: "\<not> isFocused (rings s' ! i) \<and> \<not> isAnimating (rings s' ! i)"
    from i same_core_nth(1) [OF sc] have i': "i < length (rings s)" by simp
    from same_core_nth(2) [OF sc i'] have c: "core (rings s' ! i) = core (rings s ! i)" .
    from inv i' have "\<not> isFocused (rings s ! i) \<and> \<not> isAnimating (rings s ! i) \<longrightarrow>
          scale (rings s ! i) = originalScale (rings s ! i)" by (simp add: scene_inv_def)
    with c n show "scale (rings s' ! i) = originalScale (rings s' ! i)" by (simp add: core_def)
  qed
  have queue: "rafQueue s' = [] \<or> (busy s' \<and> (\<exists>cb. rafQueue s' = [cb] \<and> callback_ok s' cb))"
    using inv b q callback_ok_same_core [OF sc] by (auto simp: scene_inv_def)
  from inv f idle queue show ?thesis by (simp add: scene_inv_def)
qed

lemma scene_inv_init: "scene_inv ens (scene_init ens)"
  by (simp add: scene_inv_def scene_init_def ring_init_def comp_def)

lemma scene_inv_queue_empty: "scene_inv ens s \<Longrightarrow> \<not> busy s \<Longrightarrow> rafQueue s = []"
  by (auto simp: scene_inv_def)

lemma scene_inv_onClick:
  assumes inv: "scene_inv ens s"
  shows "scene_inv ens (onClick now cam i s)"
proof (cases "i < length (rings s) \<and> \<not> busy s \<and> \<not> isFocused (rings s ! i) \<and>
    \<not> isAnimating (rings s ! i)")
  case False
  then have "onClick now cam i s = s" by (auto simp: onClick_def isBusy_def)
  with inv show ?thesis by simp
next
  case True
  then have i: "i < length (rings s)" and nb: "\<not> busy s" and nf: "\<not> isFocused (rings s ! i)"
    and na: "\<not> isAnimating (rings s ! i)" by simp_all
  from inv nb have q: "rafQueue s = []" by (rule scene_inv_queue_empty)
  from inv i nf na have sc: "scale (rings s ! i) = originalScale (rings s ! i)"
    by (simp add: scene_inv_def)
  show ?thesis
  proof (cases cam)
    case None
    with onClick_accepted(1) [OF i nb nf na, of now] inv q i show ?thesis
      by (auto simp: scene_inv_def map_update_same nth_list_update)
  next
    case (Some c)
    with onClick_accepted(2) [OF i nb nf na, of now c] inv q i sc show ?thesis
      by (auto simp: scene_inv_def map_update_same nth_list_update callback_ok_def)
  qed
qed

lemma scene_inv_onClose:
  assumes inv: "scene_inv ens s"
  shows "scene_inv ens (onClose now i s)"
proof (cases "i < length (rings s) \<and> isFocused (rings s ! i) \<and> \<not> busy s")
  case False
  then have "onClose now i s = s" by (auto simp: onClose_def isBusy_def)
  with inv show ?thesis by simp
next
  case True
  then have i: "i < length (rings s)" and f: "isFocused (rings s ! i)" and nb: "\<not> busy s"
    by simp_all
  from inv nb have q: "rafQueue s = []" by (rule scene_inv_queue_empty)
  from onClose_accepted [OF i f nb, of now] inv q i show ?thesis
    by (auto simp: scene_inv_def map_update_same nth_list_update callback_ok_def)
qed

lemma scene_inv_fold_onClose:
  "scene_inv ens s \<Longrightarrow> scene_inv ens (fold (\<lambda>k. onClose (clock k) k) ks s)"
  by (induction ks arbitrary: s) (simp_all add: scene_inv_onClose)

lemma scene_inv_closeFocusedRing:
  "scene_inv ens s \<Longrightarrow> scene_inv ens (closeFocusedRing clock s)"
  unfolding closeFocusedRing_def by (rule scene_inv_fold_onClose)

lemma scene_inv_animationFrame:
  assumes inv: "scene_inv ens s"
  shows "scene_inv ens (animationFrame time s)"
proof (cases "rafQueue s = []")
  case True
  with inv show ?thesis by (simp add: animationFrame_empty)
next
  case False
  with inv obtain cb where b: "busy s" and q: "rafQueue s = [cb]" and ok: "callback_ok s cb"
    by (auto simp: scene_inv_def)
  show ?thesis
  proof (cases cb)
    case (Animate i a)
    show ?thesis
    proof (cases "time < f_t0 a + 600")
      case True
      with inv b q ok Animate show ?thesis
        by (auto simp: animationFrame_single animate_running scene_inv_def callback_ok_def
            map_update_same nth_list_update)
    next
      case False
      with inv b q ok Animate show ?thesis
        by (auto simp: animationFrame_single animate_done scene_inv_def callback_ok_def
            map_update_same nth_list_update)
    qed
  next
    case (AnimateBack i c)
    show ?thesis
    proof (cases "time < c_t0 c + 600")
      case True
      with inv b q ok AnimateBack show ?thesis
        by (auto simp: animationFrame_single animateBack_running scene_inv_def callback_ok_def
            map_update_same nth_list_update)
    next
      case False
      with inv b q ok AnimateBack show ?thesis
        by (auto simp: animationFrame_single animateBack_done scene_inv_def callback_ok_def
            map_update_same nth_list_update)
    qed
  qed
qed

lemma scene_inv_step:
  assumes "scene_inv ens s"
  shows "scene_inv ens (step ev s)"
proof (cases ev)
  case (Click i now cam)
  with assms show ?thesis by (simp add: scene_inv_onClick)
next
  case (CloseRequested clock)
  with assms show ?thesis by (simp add: scene_inv_closeFocusedRing)
next
  case (AnimationFrame time)
  with assms show ?thesis by (simp add: scene_inv_animationFrame)
next
  case (PointerDown i evt)
  with assms show ?thesis
    using scene_inv_same_core [OF same_core_onPointerDown] by simp
next
  case (PointerMove evt)
  with assms show ?thesis
    using scene_inv_same_core [OF same_core_windowPointerMove] by simp
next
  case PointerUp
  with assms show ?thesis
    using scene_inv_same_core [OF same_core_windowPointerUp] by simp
next
  case Tick
  with assms show ?thesis
    using scene_inv_same_core [OF same_core_tickAll] by simp
qed

lemma reachable_inv: "reachable ens s \<Longrightarrow> scene_inv ens s"
  by (induction rule: reachable.induct) (simp_all add: scene_inv_init scene_inv_step)

lemma reachable_run: "reachable ens s \<Longrightarrow> reachable ens (run evs s)"
  unfolding run_def
  by (induction evs arbitrary: s) (simp_all add: reachable_step)

lemma reachable_baseline:
  assumes "reachable ens s" and "i < length (rings s)"
  shows "originalPos (rings s ! i) = e_position (ens ! i)"
    and "originalScale (rings s ! i) = e_scale (ens ! i)"
    and "originalRot (rings s ! i) = e_rotation (ens ! i)"
proof -
  from assms(1) have inv: "scene_inv ens s" by (rule reachable_inv)
  then have m: "map originalPos (rings s) = map e_position ens"
    "map originalScale (rings s) = map e_scale ens"
    "map originalRot (rings s) = map e_rotation ens"
    by (simp_all add: scene_inv_def)
  from m(1) have len: "length (rings s) = length ens" by (rule map_eq_imp_length_eq)
  from m(1) have "map originalPos (rings s) ! i = map e_position ens ! i" by simp
  with assms(2) len show "originalPos (rings s ! i) = e_position (ens ! i)" by simp
  from m(2) have "map originalScale (rings s) ! i = map e_scale ens ! i" by simp
  with assms(2) len show "originalScale (rings s ! i) = e_scale (ens ! i)" by simp
  from m(3) have "map originalRot (rings s) ! i = map e_rotation ens ! i" by simp
  with assms(2) len show "originalRot (rings s ! i) = e_rotation (ens ! i)" by simp
qed

subsection \<open>One close notification, many listeners\<close>

lemma fold_onClose_busy: "busy s \<Longrightarrow> fold (\<lambda>k. onClose (clock k) k) ks s = s"
  by (induction ks) (simp_all add: onClose_busy)

lemma onClose_starts_busy:
  "i < length (rings s) \<Longrightarrow> isFocused (rings s ! i) \<Longrightarrow> \<not> busy s \<Longrightarrow> busy (onClose now i s)"
  by (simp add: onClose_accepted)

lemma fold_onClose_find:
  "\<not> busy s \<Longrightarrow>
   fold (\<lambda>k. onClose (clock k) k) ks s =
     (case find (\<lambda>k. k < length (rings s) \<and> isFocused (rings s ! k)) ks of
        None \<Rightarrow> s | Some k \<Rightarrow> onClose (clock k) k s)"
proof (induction ks)
  case Nil
  show ?case by simp
next
  case (Cons k ks)
  show ?case
  proof (cases "k < length (rings s) \<and> isFocused (rings s ! k)")
    case True
    with Cons.prems have "busy (onClose (clock k) k s)"
      by (simp add: onClose_starts_busy)
    then show ?thesis using True by (simp add: fold_onClose_busy)
  next
    case False
    then have "onClose (clock k) k s = s" by (rule onClose_not_focused)
    with False Cons show ?thesis by auto
  qed
qed

lemma rings_onClose:
  "rings (onClose now i s) = rings s \<or>
   rings (onClose now i s) = (rings s)[i := (rings s ! i)\<lparr>isAnimating := True\<rparr>]"
  by (simp add: onClose_def mgr_defs Let_def)

lemma rafQueue_onClose: "length (rafQueue (onClose now i s)) \<le> length (rafQueue s) + 1"
  by (simp add: onClose_def mgr_defs Let_def)

lemma filter_upt_le_one:
  assumes "\<And>j. P j \<Longrightarrow> j = k"
  shows "length (filter P [0..<n]) \<le> 1"
proof -
  have "length (filter P [0..<n]) = card (set (filter P [0..<n]))"
    by (metis distinct_card distinct_filter distinct_upt)
  also have "\<dots> \<le> card {k}"
    by (rule card_mono) (use assms in auto)
  finally show ?thesis by simp
qed

lemma changed_rings_onClose:
  "length (filter (\<lambda>k. rings (onClose now i s) ! k \<noteq> rings s ! k) [0..<n]) \<le> 1"
proof (rule filter_upt_le_one [where k = i])
  fix j assume "rings (onClose now i s) ! j \<noteq> rings s ! j"
  then show "j = i"
    using rings_onClose [of now i s] by (cases "j = i") auto
qed

section \<open>Single active ring\<close>

text \<open>
  C1. The claim is that no two distinct rings are ever focused or animating at the same
  time. The busy flag is cleared when a focus animation completes (line 86), and onClick
  of another ring consults only the busy flag and its own two flags: after ring 0 has
  been focused, a click on ring 1 is accepted. The scene below is reachable, ring 0 is
  focused in it while ring 1 is animating, and the manager's focused element is ring 1.
\<close>

theorem second_ring_animates_while_first_focused:
  "reachable [demo_entity, demo_entity]
     (run second_click (scene_init [demo_entity, demo_entity])) \<and>
   isFocused (rings (run second_click (scene_init [demo_entity, demo_entity])) ! 0) \<and>
   isAnimating (rings (run second_click (scene_init [demo_entity, demo_entity])) ! 1) \<and>
   \<not> busy (run (butlast second_click) (scene_init [demo_entity, demo_entity])) \<and>
   focusedEl (run second_click (scene_init [demo_entity, demo_entity])) = Some 1"
  using reachable_run [OF reachable_init, of "[demo_entity, demo_entity]" second_click]
  by (simp add: eval_defs)

section \<open>Round trip of focus and close\<close>

text \<open>
  C2. The claim is that after a focus animation and a close animation the position, the
  scale and every Euler angle of the ring equal the baseline exactly, as the comments of
  the source say (return exactly to original slot; animate back to original transform
  exactly, reset rotation to original). The last frame of animateBack does not assign
  the baseline: it interpolates, with weight 1, from the values the ring had when the
  close began. In the scene below the ring is focused and then dragged; the mousedown
  the cursor emits on the entity has no clientX, so the move on the window sets the yaw
  to NaN. The close animation then runs to its end, and the yaw is still NaN, not the
  baseline 0.3.
\<close>

theorem close_leaves_nan_yaw:
  "reachable [tilted_entity] (run dragged_cycle (scene_init [tilted_entity])) \<and>
   \<not> isFocused (rings (run dragged_cycle (scene_init [tilted_entity])) ! 0) \<and>
   \<not> isAnimating (rings (run dragged_cycle (scene_init [tilted_entity])) ! 0) \<and>
   rafQueue (run dragged_cycle (scene_init [tilted_entity])) = [] \<and>
   dispatched (run dragged_cycle (scene_init [tilted_entity])) =
     [ShowCloseButton, HideCloseButton] \<and>
   ey (originalRot (rings (run dragged_cycle (scene_init [tilted_entity])) ! 0)) = Num 0.3 \<and>
   ey (rotation (rings (run dragged_cycle (scene_init [tilted_entity])) ! 0)) = NaN"
  using reachable_run [OF reachable_init, of "[tilted_entity]" dragged_cycle]
  by (simp add: eval_defs)

section \<open>Drag rotation\<close>



lemma length_windowPointerUp [simp]: "length (rings (windowPointerUp s)) = length (rings s)"
  by (simp add: windowPointerUp_def up_upd)

lemma length_onPointerDown [simp]: "length (rings (onPointerDown evt i s)) = length (rings s)"
  by (simp add: onPointerDown_def)

lemma same_core_busy: "same_core s s' \<Longrightarrow> busy s' = busy s"
  by (simp add: same_core_def)

lemma busy_drag_steps [simp]:
  "busy (onPointerDown evt i s) = busy s"
  "busy (tickAll s) = busy s"
  "busy (windowPointerMove evt s) = busy s"
  "busy (windowPointerUp s) = busy s"
  by (simp_all add: same_core_busy same_core_onPointerDown same_core_tickAll
      same_core_windowPointerMove same_core_windowPointerUp)





lemma length_run_drag [simp]:
  "length (rings (run [PointerDown i e0, Tick, PointerMove e1] s)) = length (rings s)"
  "length (rings (run [PointerMove e] s)) = length (rings s)"
  "length (rings (run [PointerUp, Tick] s)) = length (rings s)"
  by (simp_all add: run_def)

lemma busy_run_drag [simp]:
  "busy (run [PointerDown i e0, Tick, PointerMove e1] s) = busy s"
  "busy (run [PointerMove e] s) = busy s"
  "busy (run [PointerUp, Tick] s) = busy s"
  by (simp_all add: run_def)





section \<open>Clicks that are ignored\<close>

text \<open>
  C4. A click on a ring while the session is busy, or while that ring is focused or
  animating, returns the scene it was given: no field of the manager or of any ring
  changes, no callback is queued and no window event is dispatched.
\<close>

theorem onClick_ignored:
  "i < length (rings s) \<Longrightarrow>
   busy s \<or> isFocused (rings s ! i) \<or> isAnimating (rings s ! i) \<Longrightarrow>
   onClick now cam i s = s"
  by (auto simp: onClick_def isBusy_def)

theorem onClick_ignored_witness:
  "1 < length (rings (onClick 0 (Some demo_camera) 0 (scene_init [demo_entity, demo_entity]))) \<and>
   busy (onClick 0 (Some demo_camera) 0 (scene_init [demo_entity, demo_entity])) \<and>
   onClick 10 (Some demo_camera) 1
       (onClick 0 (Some demo_camera) 0 (scene_init [demo_entity, demo_entity])) =
     onClick 0 (Some demo_camera) 0 (scene_init [demo_entity, demo_entity])"
  using onClick_ignored [of 1
      "onClick 0 (Some demo_camera) 0 (scene_init [demo_entity, demo_entity])"
      10 "Some demo_camera"]
  by (simp add: eval_defs)

section \<open>The focus animation\<close>

text \<open>
  C5. The claim is that the target is the camera's world position plus 1.6 times the
  camera's forward direction, as the comments of the source say (in front of camera;
  distance in front). onClick adds 1.6 times what getWorldDirection returns for the
  object3D of the camera entity, which is the direction of its positive z axis, while
  the camera looks along the negative z axis. For the camera at z = 3 that looks towards
  decreasing z, the closure onClick queues has a target with z = 4.6, behind the camera,
  and the completing frame puts the ring there; the point 1.6 in front of the camera has
  z = 1.4.
\<close>

theorem focus_target_behind_camera:
  "rafQueue (onClick 0 (Some demo_camera) 0 (scene_init [demo_entity])) =
     [Animate 0 \<lparr>f_startPos = \<lparr>vx = 0, vy = 0, vz = 0\<rparr>,
                 f_target = \<lparr>vx = 0, vy = 1.2, vz = 4.6\<rparr>,
                 f_startScale = \<lparr>vx = 1, vy = 1, vz = 1\<rparr>,
                 f_targetScale = \<lparr>vx = 1.45, vy = 1.45, vz = 1.45\<rparr>, f_t0 = 0\<rparr>] \<and>
   position (rings (animationFrame 600
       (onClick 0 (Some demo_camera) 0 (scene_init [demo_entity]))) ! 0) =
     \<lparr>vx = 0, vy = 1.2, vz = 4.6\<rparr> \<and>
   getWorldPosition demo_camera = \<lparr>vx = 0, vy = 1, vz = 3\<rparr> \<and>
   forward demo_camera = \<lparr>vx = 0, vy = 0, vz = - 1\<rparr> \<and>
   add_v (getWorldPosition demo_camera) (multiplyScalar (forward demo_camera) 1.6) =
     \<lparr>vx = 0, vy = 1, vz = 1.4\<rparr>"
  by (simp add: eval_defs)

text \<open>
  C6. In every reachable scene, a ring on which a click is accepted has the scale of its
  entity at init, and the frame that completes a focus animation of ring \<open>i\<close> leaves its
  scale at 1.45 times that baseline scale.
\<close>

theorem focus_scales_baseline:
  assumes "reachable ens s"
  shows "(i < length (rings s) \<and> \<not> busy s \<and> \<not> isFocused (rings s ! i) \<and>
          \<not> isAnimating (rings s ! i) \<longrightarrow> scale (rings s ! i) = e_scale (ens ! i)) \<and>
         (Animate i a \<in> set (rafQueue s) \<and> f_t0 a + 600 \<le> time \<longrightarrow>
            isFocused (rings (animationFrame time s) ! i) \<and>
            scale (rings (animationFrame time s) ! i) = multiplyScalar (e_scale (ens ! i)) 1.45)"
proof -
  from assms have inv: "scene_inv ens s" by (rule reachable_inv)
  have idle: "scale (rings s ! i) = e_scale (ens ! i)"
    if "i < length (rings s) \<and> \<not> busy s \<and> \<not> isFocused (rings s ! i) \<and>
      \<not> isAnimating (rings s ! i)"
    using that inv reachable_baseline(2) [OF assms, of i] by (simp add: scene_inv_def)
  have fin: "isFocused (rings (animationFrame time s) ! i) \<and>
       scale (rings (animationFrame time s) ! i) = multiplyScalar (e_scale (ens ! i)) 1.45"
    if h: "Animate i a \<in> set (rafQueue s) \<and> f_t0 a + 600 \<le> time"
  proof -
    from h inv have q: "rafQueue s = [Animate i a]" and ok: "callback_ok s (Animate i a)"
      by (auto simp: scene_inv_def)
    from ok have i: "i < length (rings s)"
      and ts: "f_targetScale a = multiplyScalar (originalScale (rings s ! i)) 1.45"
      by (simp_all add: callback_ok_def)
    from h q i ts reachable_baseline(2) [OF assms i] show ?thesis
      by (simp add: animationFrame_single animate_done)
  qed
  from idle fin show ?thesis by blast
qed

theorem focus_scales_baseline_witness:
  "reachable [tilted_entity] (scene_init [tilted_entity]) \<and>
   reachable [tilted_entity]
     (run [Click 0 0 (Some demo_camera), AnimationFrame 300] (scene_init [tilted_entity])) \<and>
   scale (rings (scene_init [tilted_entity]) ! 0) = \<lparr>vx = 2, vy = 2, vz = 2\<rparr> \<and>
   scale (rings (animationFrame 600
       (run [Click 0 0 (Some demo_camera), AnimationFrame 300] (scene_init [tilted_entity]))) ! 0) =
     \<lparr>vx = 2.9, vy = 2.9, vz = 2.9\<rparr>"
proof -
  have r0: "reachable [tilted_entity] (scene_init [tilted_entity])"
    by (rule reachable_init)
  have r1: "reachable [tilted_entity]
     (run [Click 0 0 (Some demo_camera), AnimationFrame 300] (scene_init [tilted_entity]))"
    by (rule reachable_run [OF reachable_init])
  from r0 r1 focus_scales_baseline [OF r0, where i = 0]
    focus_scales_baseline [OF r1, where i = 0 and time = 600 and
      a = "\<lparr>f_startPos = \<lparr>vx = 0.5, vy = 0.1, vz = - 0.2\<rparr>,
             f_target = \<lparr>vx = 0, vy = 1.3, vz = 4.6\<rparr>,
             f_startScale = \<lparr>vx = 2, vy = 2, vz = 2\<rparr>,
             f_targetScale = \<lparr>vx = 2.9, vy = 2.9, vz = 2.9\<rparr>, f_t0 = 0\<rparr>"]
  show ?thesis by (simp add: eval_defs)
qed

text \<open>
  C10. Neither onClick nor any frame of the closure \<open>animate\<close> changes the rotation of any
  ring: the yaw left by earlier drags stays through the focus animation.
\<close>

theorem focus_keeps_rotation:
  "map rotation (rings (onClick now cam i s)) = map rotation (rings s) \<and>
   map rotation (rings (animate time j a s')) = map rotation (rings s')"
  by (simp add: onClick_def animate_def Let_def mgr_defs map_update_same upd_ring_upd_ring
      split: option.split)

section \<open>The close notification\<close>

text \<open>
  C7. onClose of ring \<open>i\<close> starts the close animation (sets busy, marks the ring animating
  and queues the closure that leads back to the baseline) when the ring is focused and
  the session is not busy; in every other state it returns the scene unchanged.
\<close>

theorem onClose_guard:
  "(i < length (rings s) \<and> isFocused (rings s ! i) \<and> \<not> busy s \<longrightarrow>
      busy (onClose now i s) \<and> isAnimating (rings (onClose now i s) ! i) \<and>
      rafQueue (onClose now i s) = rafQueue s @
        [AnimateBack i
           \<lparr>c_startPos = position (rings s ! i), c_endPos = originalPos (rings s ! i),
            c_startScale = scale (rings s ! i), c_endScale = originalScale (rings s ! i),
            c_startRot = rotation (rings s ! i), c_endRot = originalRot (rings s ! i),
            c_t0 = now\<rparr>]) \<and>
   (\<not> (i < length (rings s) \<and> isFocused (rings s ! i) \<and> \<not> busy s) \<longrightarrow>
      onClose now i s = s)"
  by (auto simp: onClose_def mgr_defs Let_def)

theorem onClose_guard_witness:
  "isFocused (rings one_focused ! 0) \<and> \<not> busy one_focused \<and>
   busy (onClose 1000 0 one_focused) \<and>
   length (rafQueue (onClose 1000 0 one_focused)) = 1 \<and>
   \<not> isFocused (rings one_focused ! 1) \<and> onClose 1000 1 one_focused = one_focused \<and>
   busy (onClose 1000 0 one_focused) \<and>
   onClose 1001 0 (onClose 1000 0 one_focused) = onClose 1000 0 one_focused"
  using onClose_guard [of 0 one_focused 1000] onClose_guard [of 1 one_focused 1000]
    onClose_guard [of 0 "onClose 1000 0 one_focused" 1001]
  by (simp add: eval_defs)

text \<open>
  C9. When the session is not busy, dispatching one close notification to the onClose of
  every ring has the effect of a single handler, that of the first focused ring (or of
  none when no ring is focused): at most one callback is queued and at most one ring
  changes.
\<close>

theorem close_dispatch_single:
  assumes "\<not> busy s"
  shows "closeFocusedRing clock s =
           (case find (\<lambda>k. isFocused (rings s ! k)) [0..<length (rings s)] of
              None \<Rightarrow> s | Some k \<Rightarrow> onClose (clock k) k s) \<and>
         length (rafQueue (closeFocusedRing clock s)) \<le> length (rafQueue s) + 1 \<and>
         length (filter (\<lambda>k. rings (closeFocusedRing clock s) ! k \<noteq> rings s ! k)
                   [0..<length (rings s)]) \<le> 1"
proof -
  have f: "find (\<lambda>k. k < length (rings s) \<and> isFocused (rings s ! k)) [0..<length (rings s)] =
           find (\<lambda>k. isFocused (rings s ! k)) [0..<length (rings s)]"
    by (rule find_cong) simp_all
  have eq: "closeFocusedRing clock s =
           (case find (\<lambda>k. isFocused (rings s ! k)) [0..<length (rings s)] of
              None \<Rightarrow> s | Some k \<Rightarrow> onClose (clock k) k s)"
    unfolding closeFocusedRing_def using fold_onClose_find [OF assms, of clock] f by simp
  show ?thesis
  proof (cases "find (\<lambda>k. isFocused (rings s ! k)) [0..<length (rings s)]")
    case None
    with eq show ?thesis by simp
  next
    case (Some k)
    with eq have "closeFocusedRing clock s = onClose (clock k) k s" by simp
    then show ?thesis using eq rafQueue_onClose [of "clock k" k s]
        changed_rings_onClose [of "clock k" k s "length (rings s)"] by simp
  qed
qed

theorem close_dispatch_single_witness:
  "\<not> busy two_focused \<and> isFocused (rings two_focused ! 0) \<and>
   isFocused (rings two_focused ! 1) \<and>
   closeFocusedRing (\<lambda>_. 2000) two_focused = onClose 2000 0 two_focused \<and>
   length (rafQueue (closeFocusedRing (\<lambda>_. 2000) two_focused)) = 1 \<and>
   isAnimating (rings (closeFocusedRing (\<lambda>_. 2000) two_focused) ! 0) \<and>
   \<not> isAnimating (rings (closeFocusedRing (\<lambda>_. 2000) two_focused) ! 1)"
  using close_dispatch_single [of two_focused "\<lambda>_. 2000"]
  by (simp add: eval_defs)

section \<open>Move listeners of drag-rotate\<close>

text \<open>
  C8, as stated, fails: onPointerUp only clears \<open>dragging\<close>; the listeners stay attached
  until the next tick. After pointer-down, a tick and pointer-up, the listeners of ring 0
  are attached while it is not dragging.
\<close>

theorem listeners_attached_after_pointer_up:
  "reachable [demo_entity]
     (run [PointerDown 0 (mouse 100), Tick, PointerUp] (scene_init [demo_entity])) \<and>
   attached (rings (run [PointerDown 0 (mouse 100), Tick, PointerUp]
       (scene_init [demo_entity])) ! 0) \<and>
   \<not> dragging (rings (run [PointerDown 0 (mouse 100), Tick, PointerUp]
       (scene_init [demo_entity])) ! 0)"
  using reachable_run [OF reachable_init, of "[demo_entity]"
      "[PointerDown 0 (mouse 100), Tick, PointerUp]"]
  by (simp add: eval_defs)

text \<open>
  C8, amended. The listeners are attached and removed by tick: after a tick of ring \<open>i\<close>
  (and after the tick of a frame, which ticks every ring) they are attached exactly when
  the ring is dragging, and tick does not change \<open>dragging\<close>; pointer-down and
  pointer-up leave the attachment as it is. So the listeners are installed by the first
  tick after a drag starts and removed by the first tick after it ends.
\<close>

theorem tick_syncs_listeners:
  "i < length (rings s) \<Longrightarrow>
     attached (rings (tick i s) ! i) = dragging (rings s ! i) \<and>
     dragging (rings (tick i s) ! i) = dragging (rings s ! i) \<and>
     attached (rings (tickAll s) ! i) = dragging (rings s ! i) \<and>
     dragging (rings (tickAll s) ! i) = dragging (rings s ! i) \<and>
     attached (rings (onPointerDown evt i s) ! i) = attached (rings s ! i) \<and>
     attached (rings (onPointerUp i s) ! i) = attached (rings s ! i) \<and>
     attached (rings (windowPointerUp s) ! i) = attached (rings s ! i)"
  by (auto simp: tick_def onPointerDown_def onPointerUp_def tickAll_nth tick_ring_def
      windowPointerUp_nth)

theorem tick_syncs_listeners_witness:
  "0 < length (rings (run [PointerDown 0 (mouse 100), Tick, PointerUp]
       (scene_init [demo_entity]))) \<and>
   attached (rings (run [PointerDown 0 (mouse 100), Tick, PointerUp]
       (scene_init [demo_entity])) ! 0) \<and>
   \<not> attached (rings (tick 0 (run [PointerDown 0 (mouse 100), Tick, PointerUp]
       (scene_init [demo_entity]))) ! 0)"
  using tick_syncs_listeners [of 0
      "run [PointerDown 0 (mouse 100), Tick, PointerUp] (scene_init [demo_entity])"]
  by (simp add: eval_defs)

end

